theory Spec2Isabelle
  imports Main
begin

section \<open>Requests and responses\<close>

text \<open>
  The three views of \<^verbatim>\<open>src/api/views.py\<close> read string fields out of \<^verbatim>\<open>request.data\<close>
  with \<^verbatim>\<open>request.data.get(key)\<close>, which yields \<^verbatim>\<open>None\<close> for a key that is not there.
  The request body is therefore a partial map from field names to strings.
\<close>

type_synonym request_data = "string \<rightharpoonup> string"

text \<open>
  Python's \<^verbatim>\<open>not x\<close> on an optional string: \<^verbatim>\<open>None\<close> and \<^verbatim>\<open>""\<close> are falsy, every other
  string is truthy.
\<close>

fun truthy :: "string option \<Rightarrow> bool" where
  "truthy None = False"
| "truthy (Some s) = (s \<noteq> [])"

text \<open>
  Tokens of the Token Issuer. A token carries its type, the primary key of the user it is
  bound to, its unique identifier, its expiry time and the key that signed it.
\<close>

datatype token_type = Refresh | Access

record token =
  token_type :: token_type
  user_id :: nat
  jti :: nat
  exp :: nat
  signature :: nat

text \<open>
  A response body is a JSON object whose values are strings. \<open>Jwt t\<close> stands for the string
  \<^verbatim>\<open>str(t)\<close>, the encoded form of the token \<open>t\<close>, which is kept opaque.
\<close>

datatype json = Str string | Jwt token

record response =
  data :: "(string \<times> json) list"
  status :: nat

abbreviation Response :: "(string \<times> json) list \<Rightarrow> nat \<Rightarrow> response" where
  "Response d s \<equiv> \<lparr>data = d, status = s\<rparr>"

abbreviation HTTP_200_OK :: nat where "HTTP_200_OK \<equiv> 200"
abbreviation HTTP_201_CREATED :: nat where "HTTP_201_CREATED \<equiv> 201"
abbreviation HTTP_400_BAD_REQUEST :: nat where "HTTP_400_BAD_REQUEST \<equiv> 400"
abbreviation HTTP_401_UNAUTHORIZED :: nat where "HTTP_401_UNAUTHORIZED \<equiv> 401"

section \<open>The collaborators: Credential Store, password hasher, Token Issuer, logger\<close>

text \<open>A row of the user table: primary key, name, hashed secret, contact address.\<close>

record user =
  pk :: nat
  username :: string
  password :: string
  email :: string

text \<open>
  The password hasher is a parameter of the handlers: \<open>make_password\<close> turns a secret into
  the hash that is stored, \<open>check_password secret hash\<close> tells whether a secret matches a
  stored hash.
\<close>

record hasher =
  make_password :: "string \<Rightarrow> string"
  check_password :: "string \<Rightarrow> string \<Rightarrow> bool"

datatype levelname = DEBUG | INFO | WARNING | ERROR | CRITICAL

text \<open>The calls a handler makes to the Credential Store and to the Token Issuer, in order.\<close>

datatype call =
    Users_filter string
  | Users_create_user string
  | User_save nat
  | User_check_password nat
  | RefreshToken_for_user nat
  | RefreshToken_access_token nat

text \<open>
  The state the handlers work on: the user table in primary-key order with its key sequence,
  the Token Issuer (signing key, identifier supply, clock, token lifetimes), the records
  written to the module's \<^verbatim>\<open>logger\<close>, and the history of collaborator calls.
\<close>

record state =
  users :: "user list"
  next_pk :: nat
  signing_key :: nat
  next_jti :: nat
  now :: nat
  access_lifetime :: nat
  refresh_lifetime :: nat
  log :: "(levelname \<times> string) list"
  calls :: "call list"

datatype exn = IntegrityError

text \<open>
  Modelled from the spec: the Credential Store (Django's \<^verbatim>\<open>User.objects\<close>, not part of
  the source files) offers lookup-by-name, create and verify-secret, and enforces that
  names are unique. \<^verbatim>\<open>filter(username=name)\<close> selects the rows with that name,
  \<^verbatim>\<open>exists()\<close> tells whether there is one and \<^verbatim>\<open>first()\<close> yields the first of them or
  \<^verbatim>\<open>None\<close>. Names and addresses are stored as they are submitted.
\<close>

definition objects_filter :: "state \<Rightarrow> string \<Rightarrow> user list \<times> state" where
  "objects_filter st name =
     (filter (\<lambda>u. username u = name) (users st),
      st\<lparr>calls := calls st @ [Users_filter name]\<rparr>)"

definition exists :: "user list \<Rightarrow> bool" where
  "exists qs = (qs \<noteq> [])"

definition first :: "user list \<Rightarrow> user option" where
  "first qs = (case qs of [] \<Rightarrow> None | u # _ \<Rightarrow> Some u)"

text \<open>
  Modelled from the spec: \<^verbatim>\<open>create_user\<close> makes a record with the next primary key whose
  secret is stored only in hashed form, and the store refuses a name that is already there.
\<close>

definition create_user ::
  "hasher \<Rightarrow> state \<Rightarrow> string \<Rightarrow> string \<Rightarrow> string \<Rightarrow> exn + (user \<times> state)" where
  "create_user hs st name secret contact =
     (if \<exists>u \<in> set (users st). username u = name then Inl IntegrityError
      else
        let u = \<lparr>pk = next_pk st, username = name,
                 password = make_password hs secret, email = contact\<rparr>
        in Inr (u, st\<lparr>users := users st @ [u], next_pk := Suc (next_pk st),
                      calls := calls st @ [Users_create_user name]\<rparr>))"

text \<open>
  Modelled from the spec: \<^verbatim>\<open>user.save()\<close> writes the row with the user's primary key,
  and inserts the row when the table has none with that key.
\<close>

definition save :: "state \<Rightarrow> user \<Rightarrow> state" where
  "save st u =
     st\<lparr>users :=
          (if \<exists>v \<in> set (users st). pk v = pk u
           then map (\<lambda>v. if pk v = pk u then u else v) (users st)
           else users st @ [u]),
        calls := calls st @ [User_save (pk u)]\<rparr>"

text \<open>
  Modelled from the spec: \<^verbatim>\<open>user.check_password(secret)\<close> is the store's verify-secret,
  the hasher's verdict on the secret and the hash stored in the row.
\<close>

definition user_check_password :: "hasher \<Rightarrow> state \<Rightarrow> user \<Rightarrow> string \<Rightarrow> bool \<times> state" where
  "user_check_password hs st u secret =
     (check_password hs secret (password u),
      st\<lparr>calls := calls st @ [User_check_password (pk u)]\<rparr>)"

text \<open>\<^verbatim>\<open>logger.info(msg)\<close> appends one record at level INFO.\<close>

definition logger_info :: "state \<Rightarrow> string \<Rightarrow> state" where
  "logger_info st msg = st\<lparr>log := log st @ [(INFO, msg)]\<rparr>"

text \<open>
  Modelled from the spec: the Token Issuer (the JWT library, not part of the source files)
  mints a fresh token bound to a record's identity, with an issuer-defined expiry.
  \<^verbatim>\<open>RefreshToken.for_user(user)\<close> mints a refresh token for the user, and the
  \<^verbatim>\<open>access_token\<close> property of a refresh token mints an access token for the same user.
  Each minted token takes the next unused identifier.
\<close>

definition for_user :: "state \<Rightarrow> user \<Rightarrow> token \<times> state" where
  "for_user st u =
     (\<lparr>token_type = Refresh, user_id = pk u, jti = next_jti st,
       exp = now st + refresh_lifetime st, signature = signing_key st\<rparr>,
      st\<lparr>next_jti := Suc (next_jti st),
         calls := calls st @ [RefreshToken_for_user (pk u)]\<rparr>)"

definition access_token :: "state \<Rightarrow> token \<Rightarrow> token \<times> state" where
  "access_token st r =
     (\<lparr>token_type = Access, user_id = user_id r, jti = next_jti st,
       exp = now st + access_lifetime st, signature = signing_key st\<rparr>,
      st\<lparr>next_jti := Suc (next_jti st),
         calls := calls st @ [RefreshToken_access_token (user_id r)]\<rparr>)"

section \<open>The Login Handler\<close>

text \<open>
  \<^verbatim>\<open>LoginUserView.post\<close>. Below the first test both fields are truthy, so \<open>the\<close> is only
  applied to a field that is there.
\<close>

definition LoginUserView_post :: "hasher \<Rightarrow> state \<Rightarrow> request_data \<Rightarrow> response \<times> state" where
  "LoginUserView_post hs st rd =
     (let un = rd ''username'';
          pw = rd ''password''
      in if \<not> truthy un \<or> \<not> truthy pw then
           (Response [(''error'', Str ''Both username and password are required'')]
              HTTP_400_BAD_REQUEST, st)
         else
           let st1 = logger_info st (''Attempting login for '' @ the un);
               (qs, st2) = objects_filter st1 (the un)
           in case first qs of
                None \<Rightarrow>
                  (Response [(''error'', Str ''Invalid credentials'')] HTTP_400_BAD_REQUEST, st2)
              | Some u \<Rightarrow>
                  let (ok, st3) = user_check_password hs st2 u (the pw)
                  in if \<not> ok then
                       (Response [(''error'', Str ''Invalid credentials'')]
                          HTTP_400_BAD_REQUEST, st3)
                     else
                       let (refresh, st4) = for_user st3 u;
                           (tok, st5) = access_token st4 refresh
                       in (Response [(''access_token'', Jwt tok)] HTTP_200_OK, st5))"

section \<open>The Registration Handler\<close>

text \<open>
  \<^verbatim>\<open>RegisterUserView.post\<close>. An exception raised by the Credential Store is not caught
  by the handler and is its result. As in the Login Handler, \<open>the\<close> is applied below the
  first test only, to fields that are there.
\<close>

definition RegisterUserView_post ::
  "hasher \<Rightarrow> state \<Rightarrow> request_data \<Rightarrow> exn + (response \<times> state)" where
  "RegisterUserView_post hs st rd =
     (let un = rd ''username'';
          pw = rd ''password'';
          em = rd ''email''
      in if \<not> truthy un \<or> \<not> truthy pw \<or> \<not> truthy em then
           Inr (Response [(''error'', Str ''All fields are required'')]
                  HTTP_400_BAD_REQUEST, st)
         else
           let (qs, st1) = objects_filter st (the un)
           in if exists qs then
                Inr (Response [(''error'', Str ''Username already taken'')]
                       HTTP_400_BAD_REQUEST, st1)
              else
                case create_user hs st1 (the un) (the pw) (the em) of
                  Inl e \<Rightarrow> Inl e
                | Inr (u, st2) \<Rightarrow>
                    let st3 = save st2 u
                    in Inr (Response [(''message'', Str ''User created successfully'')]
                              HTTP_201_CREATED, st3))"

section \<open>The Access Guard\<close>

text \<open>
  \<^verbatim>\<open>SecureApiView\<close> declares \<^verbatim>\<open>permission_classes = [IsAuthenticated]\<close>; its \<^verbatim>\<open>get\<close>
  ignores the request and answers with a fixed payload and the default status.
\<close>

datatype permission = AllowAny | IsAuthenticated

text \<open>What the caller presents in the authorization header, if anything.\<close>

datatype bearer = Malformed string | Bearer token

definition SecureApiView_permission_classes :: "permission list" where
  "SecureApiView_permission_classes = [IsAuthenticated]"

definition SecureApiView_get :: "state \<Rightarrow> bearer option \<Rightarrow> response \<times> state" where
  "SecureApiView_get st request =
     (Response [(''message'', Str ''You have access to this secure endpoint!'')] HTTP_200_OK, st)"

text \<open>
  Modelled from the spec: the Token Issuer accepts a presented token as currently valid
  when it is well-formed, carries a correct signature and has not expired. The validation
  belongs to the JWT library and its configuration, which are not part of the source files.
\<close>

definition accepts :: "state \<Rightarrow> bearer option \<Rightarrow> bool" where
  "accepts st request =
     (case request of
        None \<Rightarrow> False
      | Some (Malformed _) \<Rightarrow> False
      | Some (Bearer t) \<Rightarrow>
          token_type t = Access \<and> signature t = signing_key st \<and> now st < exp t)"

fun has_permission :: "permission \<Rightarrow> bool \<Rightarrow> bool" where
  "has_permission AllowAny authenticated = True"
| "has_permission IsAuthenticated authenticated = authenticated"

definition authentication_failure :: "bearer option \<Rightarrow> response" where
  "authentication_failure request =
     (case request of
        None \<Rightarrow>
          Response [(''detail'', Str ''Authentication credentials were not provided.'')]
            HTTP_401_UNAUTHORIZED
      | Some _ \<Rightarrow>
          Response [(''detail'', Str ''Given token not valid for any token type'')]
            HTTP_401_UNAUTHORIZED)"

text \<open>
  Modelled from the spec: the framework's dispatch (not part of the source files) checks
  the view's permission classes against the Token Issuer's verdict before it runs the
  handler body. If validation fails the request never reaches the handler body and the
  caller receives an authentication-failure response.
\<close>

definition dispatch ::
  "permission list \<Rightarrow> (state \<Rightarrow> bearer option \<Rightarrow> response \<times> state) \<Rightarrow>
   state \<Rightarrow> bearer option \<Rightarrow> response \<times> state" where
  "dispatch permission_classes handler st request =
     (if \<forall>p \<in> set permission_classes. has_permission p (accepts st request)
      then handler st request
      else (authentication_failure request, st))"

definition SecureApiView :: "state \<Rightarrow> bearer option \<Rightarrow> response \<times> state" where
  "SecureApiView = dispatch SecureApiView_permission_classes SecureApiView_get"

section \<open>Routing and runs of the system\<close>

text \<open>
  \<^verbatim>\<open>src/api/urls.py\<close> routes \<^verbatim>\<open>register/\<close>, \<^verbatim>\<open>login/\<close> and \<^verbatim>\<open>secure/\<close> to the three views.
  A request is one of the three, and serving it yields the state it leaves. An exception
  that escapes the Registration Handler leaves the state as it was.
\<close>

datatype request =
    Register request_data
  | Login request_data
  | Secure "bearer option"

definition serve :: "hasher \<Rightarrow> state \<Rightarrow> request \<Rightarrow> state" where
  "serve hs st rq =
     (case rq of
        Register rd \<Rightarrow>
          (case RegisterUserView_post hs st rd of Inl e \<Rightarrow> st | Inr (r, st') \<Rightarrow> st')
      | Login rd \<Rightarrow> snd (LoginUserView_post hs st rd)
      | Secure b \<Rightarrow> snd (SecureApiView st b))"

text \<open>The state after a sequence of requests, served one after the other.\<close>

fun run :: "hasher \<Rightarrow> state \<Rightarrow> request list \<Rightarrow> state" where
  "run hs st [] = st"
| "run hs st (rq # rqs) = run hs (serve hs st rq) rqs"

section \<open>Well-formed stores and example data\<close>

text \<open>
  The invariants the database keeps on the user table: names are unique, primary keys are
  unique and were all handed out by the key sequence.
\<close>

definition db_ok :: "state \<Rightarrow> bool" where
  "db_ok st =
     (distinct (map username (users st)) \<and> distinct (map pk (users st)) \<and>
      (\<forall>u \<in> set (users st). pk u < next_pk st))"

text \<open>
  What holds of every record the Registration Handler creates: its name is not empty and
  its stored secret is the hash of a secret that is not empty.
\<close>

definition registered :: "hasher \<Rightarrow> user \<Rightarrow> bool" where
  "registered hs w = (username w \<noteq> [] \<and> (\<exists>q. q \<noteq> [] \<and> password w = make_password hs q))"

text \<open>A hasher, an empty system and the requests of the spec's scenario, for closed instances.\<close>

definition example_hasher :: hasher where
  "example_hasher =
     \<lparr>make_password = (\<lambda>s. ''sha$'' @ s), check_password = (\<lambda>s h. h = ''sha$'' @ s)\<rparr>"

definition empty_system :: state where
  "empty_system =
     \<lparr>users = [], next_pk = 1, signing_key = 7, next_jti = 0, now = 0,
      access_lifetime = 300, refresh_lifetime = 86400, log = [], calls = []\<rparr>"

definition alice :: user where
  "alice = \<lparr>pk = 1, username = ''alice'', password = ''sha$pw1'', email = ''a@x.com''\<rparr>"

definition alice_system :: state where
  "alice_system = empty_system\<lparr>users := [alice], next_pk := 2\<rparr>"

definition register_alice :: request_data where
  "register_alice =
     [''username'' \<mapsto> ''alice'', ''password'' \<mapsto> ''pw1'', ''email'' \<mapsto> ''a@x.com'']"

definition login_alice :: request_data where
  "login_alice = [''username'' \<mapsto> ''alice'', ''password'' \<mapsto> ''pw1'']"

definition login_alice_wrong :: request_data where
  "login_alice_wrong = [''username'' \<mapsto> ''alice'', ''password'' \<mapsto> ''wrong'']"

text \<open>An access token for alice that the issuer of \<open>empty_system\<close> signed and that has not expired.\<close>

definition alice_token :: token where
  "alice_token = \<lparr>token_type = Access, user_id = 1, jti = 1, exp = 300, signature = 7\<rparr>"

section \<open>Properties of the Login Handler\<close>

lemma login_falsy_field:
  "\<not> truthy (rd ''username'') \<or> \<not> truthy (rd ''password'') \<Longrightarrow>
   LoginUserView_post hs st rd =
     (Response [(''error'', Str ''Both username and password are required'')] 400, st)"
  by (simp add: LoginUserView_post_def Let_def)

lemma filter_unique_name:
  "distinct (map username xs) \<Longrightarrow> w \<in> set xs \<Longrightarrow>
   filter (\<lambda>v. username v = username w) xs = [w]"
  by (induction xs) (auto simp: filter_empty_conv image_iff)

lemma login_unknown_user:
  assumes "rd ''username'' = Some u" "rd ''password'' = Some p" "u \<noteq> []" "p \<noteq> []"
    and "\<forall>v \<in> set (users st). username v \<noteq> u"
  shows "LoginUserView_post hs st rd =
     (Response [(''error'', Str ''Invalid credentials'')] 400,
      st\<lparr>log := log st @ [(INFO, ''Attempting login for '' @ u)],
         calls := calls st @ [Users_filter u]\<rparr>)"
  using assms
  by (simp add: LoginUserView_post_def Let_def logger_info_def objects_filter_def first_def
      filter_empty_conv split: list.splits)

lemma login_first_match:
  assumes "rd ''username'' = Some u" "rd ''password'' = Some p" "u \<noteq> []" "p \<noteq> []"
    and "first (filter (\<lambda>v. username v = u) (users st)) = Some w"
  shows "LoginUserView_post hs st rd =
     (if check_password hs p (password w) then
        (Response [(''access_token'',
            Jwt \<lparr>token_type = Access, user_id = pk w, jti = Suc (next_jti st),
                 exp = now st + access_lifetime st, signature = signing_key st\<rparr>)] 200,
         st\<lparr>next_jti := Suc (Suc (next_jti st)),
            log := log st @ [(INFO, ''Attempting login for '' @ u)],
            calls := calls st @ [Users_filter u, User_check_password (pk w),
              RefreshToken_for_user (pk w), RefreshToken_access_token (pk w)]\<rparr>)
      else
        (Response [(''error'', Str ''Invalid credentials'')] 400,
         st\<lparr>log := log st @ [(INFO, ''Attempting login for '' @ u)],
            calls := calls st @ [Users_filter u, User_check_password (pk w)]\<rparr>))"
  using assms
  by (simp add: LoginUserView_post_def Let_def logger_info_def objects_filter_def
      user_check_password_def for_user_def access_token_def)

lemma login_ok_token:
  assumes "LoginUserView_post hs st rd = (r, st')" "status r = 200"
  shows "\<exists>t. data r = [(''access_token'', Jwt t)] \<and> token_type t = Access \<and>
     jti t = Suc (next_jti st) \<and> next_jti st' = Suc (Suc (next_jti st))"
  using assms
  by (auto simp: LoginUserView_post_def Let_def logger_info_def objects_filter_def
      user_check_password_def for_user_def access_token_def
      split: if_splits option.splits)

lemma login_log:
  "log (snd (LoginUserView_post hs st rd)) =
     (if truthy (rd ''username'') \<and> truthy (rd ''password'')
      then log st @ [(INFO, ''Attempting login for '' @ the (rd ''username''))] else log st)"
  by (auto simp: LoginUserView_post_def Let_def logger_info_def objects_filter_def
      user_check_password_def for_user_def access_token_def
      split: if_splits option.splits)

lemma login_users:
  "users (snd (LoginUserView_post hs st rd)) = users st \<and>
   next_pk (snd (LoginUserView_post hs st rd)) = next_pk st"
  by (auto simp: LoginUserView_post_def Let_def logger_info_def objects_filter_def
      user_check_password_def for_user_def access_token_def
      split: if_splits option.splits)

text \<open>
  C9. A login request in which the username field or the password field is absent gets the
  validation error (status 400), and the handler leaves the whole state as it was: no call
  to the Credential Store or to the Token Issuer is made.
\<close>

theorem login_absent_field:
  "rd ''username'' = None \<or> rd ''password'' = None \<Longrightarrow>
   LoginUserView_post hs st rd =
     (Response [(''error'', Str ''Both username and password are required'')] 400, st)"
  by (rule login_falsy_field) auto

theorem login_absent_field_witness:
  "[''username'' \<mapsto> ''alice''] ''password'' = None \<and>
   LoginUserView_post example_hasher alice_system [''username'' \<mapsto> ''alice''] =
     (Response [(''error'', Str ''Both username and password are required'')] 400, alice_system)"
  using login_absent_field [of "[''username'' \<mapsto> ''alice'']" example_hasher alice_system]
  by simp

text \<open>
  C10. A login request whose username or password is present but the empty string gets the
  validation error (status 400, "Both username and password are required"), which is not
  the authentication error; the handler makes no Credential Store lookup and logs nothing.
\<close>

theorem login_empty_field:
  "rd ''username'' = Some [] \<or> rd ''password'' = Some [] \<Longrightarrow>
   (\<exists>st'. LoginUserView_post hs st rd =
       (Response [(''error'', Str ''Both username and password are required'')] 400, st') \<and>
     calls st' = calls st \<and> log st' = log st \<and> st' = st) \<and>
   fst (LoginUserView_post hs st rd) \<noteq> Response [(''error'', Str ''Invalid credentials'')] 400"
proof -
  assume "rd ''username'' = Some [] \<or> rd ''password'' = Some []"
  then have "\<not> truthy (rd ''username'') \<or> \<not> truthy (rd ''password'')"
    by auto
  then have "LoginUserView_post hs st rd =
     (Response [(''error'', Str ''Both username and password are required'')] 400, st)"
    by (rule login_falsy_field)
  then show ?thesis by simp
qed

theorem login_empty_field_witness:
  "(\<exists>st'. LoginUserView_post example_hasher alice_system
             [''username'' \<mapsto> ''alice'', ''password'' \<mapsto> []] =
       (Response [(''error'', Str ''Both username and password are required'')] 400, st') \<and>
     calls st' = calls alice_system \<and> log st' = log alice_system \<and> st' = alice_system) \<and>
   fst (LoginUserView_post example_hasher alice_system
          [''username'' \<mapsto> ''alice'', ''password'' \<mapsto> []]) \<noteq>
     Response [(''error'', Str ''Invalid credentials'')] 400"
  using login_empty_field
    [of "[''username'' \<mapsto> ''alice'', ''password'' \<mapsto> []]" example_hasher alice_system]
  by simp

lemma first_filter_unique:
  "distinct (map username xs) \<Longrightarrow> w \<in> set xs \<Longrightarrow>
   first (filter (\<lambda>v. username v = username w) xs) = Some w"
  by (simp add: filter_unique_name first_def)

lemma first_filter_some:
  "\<exists>w \<in> set xs. username w = u \<Longrightarrow>
   \<exists>w. first (filter (\<lambda>v. username v = u) xs) = Some w \<and> w \<in> set xs \<and> username w = u"
proof -
  assume "\<exists>w \<in> set xs. username w = u"
  then have "filter (\<lambda>v. username v = u) xs \<noteq> []"
    by (auto simp: filter_empty_conv)
  then obtain w ws where eq: "filter (\<lambda>v. username v = u) xs = w # ws"
    by (cases "filter (\<lambda>v. username v = u) xs") auto
  then have "w \<in> set (filter (\<lambda>v. username v = u) xs)" by simp
  then have "w \<in> set xs \<and> username w = u" by simp
  with eq show ?thesis by (simp add: first_def)
qed

text \<open>
  C1. Take a login request that contains both username and password. In a store where the
  username matches no record, and in a store where it matches a record but the supplied
  password does not match the stored hash, the handler returns the same response: status
  400 with the same body, which is the generic "Invalid credentials" when both fields are
  non-empty. The two causes of failure cannot be told apart from the response.
\<close>

theorem login_failure_indistinguishable:
  assumes fields: "rd ''username'' = Some u" "rd ''password'' = Some p"
    and unknown: "\<forall>v \<in> set (users st1). username v \<noteq> u"
    and known: "\<exists>w \<in> set (users st2). username w = u"
    and wrong: "\<forall>w \<in> set (users st2). username w = u \<longrightarrow> \<not> check_password hs p (password w)"
  shows "fst (LoginUserView_post hs st1 rd) = fst (LoginUserView_post hs st2 rd) \<and>
         status (fst (LoginUserView_post hs st1 rd)) = 400 \<and>
         (u \<noteq> [] \<and> p \<noteq> [] \<longrightarrow>
            fst (LoginUserView_post hs st1 rd) =
              Response [(''error'', Str ''Invalid credentials'')] 400)"
proof (cases "u \<noteq> [] \<and> p \<noteq> []")
  case False
  then have "\<not> truthy (rd ''username'') \<or> \<not> truthy (rd ''password'')"
    using fields by auto
  then have "\<And>st. LoginUserView_post hs st rd =
     (Response [(''error'', Str ''Both username and password are required'')] 400, st)"
    by (rule login_falsy_field)
  with False show ?thesis by simp
next
  case True
  then have ne: "u \<noteq> []" "p \<noteq> []" by simp_all
  have one: "fst (LoginUserView_post hs st1 rd) =
      Response [(''error'', Str ''Invalid credentials'')] 400"
    by (simp add: login_unknown_user [OF fields ne unknown])
  from first_filter_some [OF known] obtain w
    where w: "first (filter (\<lambda>v. username v = u) (users st2)) = Some w"
      "w \<in> set (users st2)" "username w = u"
    by blast
  with wrong have "\<not> check_password hs p (password w)" by simp
  then have two: "fst (LoginUserView_post hs st2 rd) =
      Response [(''error'', Str ''Invalid credentials'')] 400"
    by (simp add: login_first_match [OF fields ne w(1)])
  from one two show ?thesis by simp
qed

theorem login_failure_indistinguishable_witness:
  "login_alice_wrong ''username'' = Some ''alice'' \<and>
   login_alice_wrong ''password'' = Some ''wrong'' \<and>
   users empty_system = [] \<and>
   map username (users alice_system) = [''alice''] \<and>
   map (\<lambda>w. check_password example_hasher ''wrong'' (password w)) (users alice_system) =
     [False] \<and>
   fst (LoginUserView_post example_hasher empty_system login_alice_wrong) =
     fst (LoginUserView_post example_hasher alice_system login_alice_wrong) \<and>
   fst (LoginUserView_post example_hasher empty_system login_alice_wrong) =
     Response [(''error'', Str ''Invalid credentials'')] 400"
proof -
  have f: "login_alice_wrong ''username'' = Some ''alice''"
    "login_alice_wrong ''password'' = Some ''wrong''"
    by (simp_all add: login_alice_wrong_def)
  have unknown: "\<forall>v \<in> set (users empty_system). username v \<noteq> ''alice''"
    by (simp add: empty_system_def)
  have known: "\<exists>w \<in> set (users alice_system). username w = ''alice''"
    by (simp add: alice_system_def alice_def)
  have wrong: "\<forall>w \<in> set (users alice_system). username w = ''alice'' \<longrightarrow>
      \<not> check_password example_hasher ''wrong'' (password w)"
    by (simp add: alice_system_def alice_def example_hasher_def)
  have c: "users empty_system = []" "map username (users alice_system) = [''alice'']"
    "map (\<lambda>w. check_password example_hasher ''wrong'' (password w)) (users alice_system) =
       [False]"
    by (simp_all add: empty_system_def alice_system_def alice_def example_hasher_def)
  have "''alice'' \<noteq> [] \<and> ''wrong'' \<noteq> []" by simp
  with login_failure_indistinguishable [OF f unknown known wrong]
  have r: "fst (LoginUserView_post example_hasher empty_system login_alice_wrong) =
      fst (LoginUserView_post example_hasher alice_system login_alice_wrong)"
    "fst (LoginUserView_post example_hasher empty_system login_alice_wrong) =
      Response [(''error'', Str ''Invalid credentials'')] 400"
    by metis+
  from f c r show ?thesis by (intro conjI)
qed

lemma login_success_nonempty:
  assumes "rd ''username'' = Some u" "rd ''password'' = Some p" "u \<noteq> []" "p \<noteq> []"
    and "db_ok st" "w \<in> set (users st)" "username w = u"
    and "check_password hs p (password w)"
  shows "\<exists>tok st'.
     LoginUserView_post hs st rd = (Response [(''access_token'', Jwt tok)] 200, st') \<and>
     token_type tok = Access \<and> user_id tok = pk w \<and>
     calls st' = calls st @ [Users_filter u, User_check_password (pk w),
       RefreshToken_for_user (pk w), RefreshToken_access_token (pk w)]"
proof -
  from assms(5,6,7) have "first (filter (\<lambda>v. username v = u) (users st)) = Some w"
    using first_filter_unique [of "users st" w] by (auto simp: db_ok_def)
  from login_first_match [OF assms(1-4) this, of hs] assms(8) show ?thesis
    by simp
qed

text \<open>
  C7. Two successive successful logins each return a token, and the two tokens are distinct:
  the handler asks the Token Issuer for a new token at every login and keeps none. This
  holds for any two requests, so in particular for two logins of the same identity with its
  correct name and secret.
\<close>

theorem successive_logins_distinct:
  assumes "LoginUserView_post hs st rd1 = (r1, st1)"
    and "LoginUserView_post hs st1 rd2 = (r2, st2)"
    and "status r1 = 200" "status r2 = 200"
  shows "\<exists>t1 t2. data r1 = [(''access_token'', Jwt t1)] \<and>
           data r2 = [(''access_token'', Jwt t2)] \<and> t1 \<noteq> t2"
proof -
  from login_ok_token [OF assms(1,3)] obtain t1
    where t1: "data r1 = [(''access_token'', Jwt t1)]" "jti t1 = Suc (next_jti st)"
      "next_jti st1 = Suc (Suc (next_jti st))"
    by blast
  from login_ok_token [OF assms(2,4)] obtain t2
    where t2: "data r2 = [(''access_token'', Jwt t2)]" "jti t2 = Suc (next_jti st1)"
    by blast
  from t1 t2 have "jti t1 \<noteq> jti t2" by simp
  then have "t1 \<noteq> t2" by auto
  with t1(1) t2(1) show ?thesis by blast
qed

theorem successive_logins_distinct_witness:
  "status (fst (LoginUserView_post example_hasher alice_system login_alice)) = 200 \<and>
   status (fst (LoginUserView_post example_hasher
      (snd (LoginUserView_post example_hasher alice_system login_alice)) login_alice)) = 200 \<and>
   (\<exists>t1 t2.
      data (fst (LoginUserView_post example_hasher alice_system login_alice)) =
        [(''access_token'', Jwt t1)] \<and>
      data (fst (LoginUserView_post example_hasher
        (snd (LoginUserView_post example_hasher alice_system login_alice)) login_alice)) =
        [(''access_token'', Jwt t2)] \<and> t1 \<noteq> t2)"
proof -
  let ?a = "LoginUserView_post example_hasher alice_system login_alice"
  let ?b = "LoginUserView_post example_hasher (snd ?a) login_alice"
  have f: "login_alice ''username'' = Some ''alice''" "login_alice ''password'' = Some ''pw1''"
    "''alice'' \<noteq> []" "''pw1'' \<noteq> []"
    by (simp_all add: login_alice_def)
  have m1: "first (filter (\<lambda>v. username v = ''alice'') (users alice_system)) = Some alice"
    by (simp add: alice_system_def first_def alice_def)
  have "users (snd ?a) = users alice_system" by (simp add: login_users)
  with m1 have m2: "first (filter (\<lambda>v. username v = ''alice'') (users (snd ?a))) = Some alice"
    by simp
  have ok: "check_password example_hasher ''pw1'' (password alice)"
    by (simp add: example_hasher_def alice_def)
  have s1: "status (fst ?a) = 200"
    using ok by (simp add: login_first_match [OF f m1])
  have s2: "status (fst ?b) = 200"
    using ok by (simp add: login_first_match [OF f m2])
  have e1: "?a = (fst ?a, snd ?a)" by simp
  have e2: "?b = (fst ?b, snd ?b)" by simp
  from successive_logins_distinct [OF e1 e2 s1 s2] have
    "\<exists>t1 t2. data (fst ?a) = [(''access_token'', Jwt t1)] \<and>
       data (fst ?b) = [(''access_token'', Jwt t2)] \<and> t1 \<noteq> t2" .
  with s1 s2 show ?thesis by (intro conjI)
qed

section \<open>Properties of the Registration Handler\<close>

lemma register_falsy_field:
  "\<not> truthy (rd ''username'') \<or> \<not> truthy (rd ''password'') \<or> \<not> truthy (rd ''email'') \<Longrightarrow>
   RegisterUserView_post hs st rd =
     Inr (Response [(''error'', Str ''All fields are required'')] 400, st)"
  by (simp add: RegisterUserView_post_def Let_def)

lemma register_name_taken:
  assumes "rd ''username'' = Some u" "rd ''password'' = Some p" "rd ''email'' = Some e"
    and "u \<noteq> []" "p \<noteq> []" "e \<noteq> []"
    and "\<exists>v \<in> set (users st). username v = u"
  shows "RegisterUserView_post hs st rd =
     Inr (Response [(''error'', Str ''Username already taken'')] 400,
          st\<lparr>calls := calls st @ [Users_filter u]\<rparr>)"
  using assms
  by (auto simp: RegisterUserView_post_def Let_def objects_filter_def exists_def
      filter_empty_conv)

lemma map_replace_absent:
  "\<forall>v \<in> set xs. pk v \<noteq> n \<Longrightarrow> map (\<lambda>v. if pk v = n then u else v) xs = xs"
  by (induction xs) auto

lemma register_name_free:
  assumes "rd ''username'' = Some u" "rd ''password'' = Some p" "rd ''email'' = Some e"
    and "u \<noteq> []" "p \<noteq> []" "e \<noteq> []"
    and "\<forall>v \<in> set (users st). username v \<noteq> u"
    and "\<forall>v \<in> set (users st). pk v \<noteq> next_pk st"
  shows "RegisterUserView_post hs st rd =
     Inr (Response [(''message'', Str ''User created successfully'')] 201,
          st\<lparr>users := users st @ [\<lparr>pk = next_pk st, username = u,
                   password = make_password hs p, email = e\<rparr>],
             next_pk := Suc (next_pk st),
             calls := calls st @ [Users_filter u, Users_create_user u,
               User_save (next_pk st)]\<rparr>)"
  using assms
  by (simp add: RegisterUserView_post_def Let_def objects_filter_def exists_def
      filter_empty_conv create_user_def save_def map_replace_absent)

lemma register_never_raises: "RegisterUserView_post hs st rd \<noteq> Inl x"
  by (auto simp: RegisterUserView_post_def Let_def objects_filter_def exists_def
      filter_empty_conv create_user_def split: if_splits)

lemma register_log:
  "RegisterUserView_post hs st rd = Inr (r, st') \<Longrightarrow> log st' = log st"
  by (auto simp: RegisterUserView_post_def Let_def objects_filter_def exists_def
      filter_empty_conv create_user_def save_def split: if_splits)

lemma db_ok_fresh_pk: "db_ok st \<Longrightarrow> \<forall>v \<in> set (users st). pk v \<noteq> next_pk st"
  by (auto simp: db_ok_def)

lemma register_preserves_db_ok:
  assumes "db_ok st" "RegisterUserView_post hs st rd = Inr (r, st')"
  shows "db_ok st'"
proof (cases "truthy (rd ''username'') \<and> truthy (rd ''password'') \<and> truthy (rd ''email'')")
  case False
  then have "RegisterUserView_post hs st rd =
     Inr (Response [(''error'', Str ''All fields are required'')] 400, st)"
    by (simp add: RegisterUserView_post_def Let_def)
  with assms show ?thesis by simp
next
  case True
  then obtain u p e where f: "rd ''username'' = Some u" "rd ''password'' = Some p"
    "rd ''email'' = Some e" "u \<noteq> []" "p \<noteq> []" "e \<noteq> []"
    by (cases "rd ''username''"; cases "rd ''password''"; cases "rd ''email''") auto
  show ?thesis
  proof (cases "\<exists>v \<in> set (users st). username v = u")
    case True
    from register_name_taken [OF f True, of hs] assms show ?thesis
      by (auto simp: db_ok_def)
  next
    case False
    then have free: "\<forall>v \<in> set (users st). username v \<noteq> u" by simp
    from register_name_free [OF f free db_ok_fresh_pk [OF assms(1)], of hs] assms free
    show ?thesis
      by (auto simp: db_ok_def less_Suc_eq)
  qed
qed

text \<open>
  C3. A registration request in which any of the three fields is absent or empty gets the
  validation error (status 400) and the state, the user table with it, is unchanged.
\<close>

theorem register_missing_field:
  "f \<in> {''username'', ''password'', ''email''} \<Longrightarrow> rd f = None \<or> rd f = Some [] \<Longrightarrow>
   RegisterUserView_post hs st rd =
     Inr (Response [(''error'', Str ''All fields are required'')] 400, st)"
  by (rule register_falsy_field) auto

theorem register_missing_field_witness:
  "''email'' \<in> {''username'', ''password'', ''email''} \<and>
   [''username'' \<mapsto> ''bob'', ''password'' \<mapsto> ''pw2''] ''email'' = None \<and>
   RegisterUserView_post example_hasher alice_system
       [''username'' \<mapsto> ''bob'', ''password'' \<mapsto> ''pw2''] =
     Inr (Response [(''error'', Str ''All fields are required'')] 400, alice_system)"
  using register_missing_field
    [of "''email''" "[''username'' \<mapsto> ''bob'', ''password'' \<mapsto> ''pw2'']"
        example_hasher alice_system]
  by simp

text \<open>
  C6. For every registration request whose three fields are present and non-empty and whose
  name is not yet in a well-formed store, the handler answers with status 201 and the body
  \<open>{"message": "User created successfully"}\<close>, which holds none of the submitted data, and
  the user table gains exactly one row: the next primary key, the submitted name and
  contact, and the hash of the secret. The secret enters the outcome only through its hash:
  a request that differs only in a secret with the same hash has the very same outcome.
  Nothing is logged.
\<close>

theorem register_success:
  assumes "rd ''username'' = Some u" "rd ''password'' = Some p" "rd ''email'' = Some e"
    and "u \<noteq> []" "p \<noteq> []" "e \<noteq> []"
    and "db_ok st"
    and "\<forall>v \<in> set (users st). username v \<noteq> u"
  shows "(\<exists>st'. RegisterUserView_post hs st rd =
            Inr (Response [(''message'', Str ''User created successfully'')] 201, st') \<and>
          users st' = users st @ [\<lparr>pk = next_pk st, username = u,
            password = make_password hs p, email = e\<rparr>] \<and>
          log st' = log st \<and> db_ok st') \<and>
         (\<forall>p'. p' \<noteq> [] \<and> make_password hs p' = make_password hs p \<longrightarrow>
            RegisterUserView_post hs st (rd(''password'' \<mapsto> p')) =
              RegisterUserView_post hs st rd)"
proof (intro conjI allI impI)
  note pkf = db_ok_fresh_pk [OF assms(7)]
  note eq = register_name_free [OF assms(1-6) assms(8) pkf, of hs]
  from register_preserves_db_ok [OF assms(7) eq] eq
  show "\<exists>st'. RegisterUserView_post hs st rd =
            Inr (Response [(''message'', Str ''User created successfully'')] 201, st') \<and>
          users st' = users st @ [\<lparr>pk = next_pk st, username = u,
            password = make_password hs p, email = e\<rparr>] \<and>
          log st' = log st \<and> db_ok st'"
    by simp
  fix p'
  assume h: "p' \<noteq> [] \<and> make_password hs p' = make_password hs p"
  have f': "(rd(''password'' \<mapsto> p')) ''username'' = Some u"
    "(rd(''password'' \<mapsto> p')) ''password'' = Some p'"
    "(rd(''password'' \<mapsto> p')) ''email'' = Some e"
    using assms(1,3) by simp_all
  from h have ne: "p' \<noteq> []" by simp
  from h have hp: "make_password hs p' = make_password hs p" by simp
  note eq' = register_name_free [OF f' assms(4) ne assms(6) assms(8) pkf, of hs]
  show "RegisterUserView_post hs st (rd(''password'' \<mapsto> p')) =
          RegisterUserView_post hs st rd"
    by (simp only: eq' eq hp)
qed

lemma db_ok_empty_system: "db_ok empty_system"
  by (simp add: db_ok_def empty_system_def)

lemma db_ok_alice_system: "db_ok alice_system"
  by (simp add: db_ok_def alice_system_def empty_system_def alice_def)

lemma register_alice_fields:
  "register_alice ''username'' = Some ''alice''"
  "register_alice ''password'' = Some ''pw1''"
  "register_alice ''email'' = Some ''a@x.com''"
  "''alice'' \<noteq> []" "''pw1'' \<noteq> []" "''a@x.com'' \<noteq> []"
  by (simp_all add: register_alice_def)

theorem register_success_witness:
  "db_ok empty_system \<and> users empty_system = [] \<and>
   register_alice ''username'' = Some ''alice'' \<and> register_alice ''password'' = Some ''pw1'' \<and>
   register_alice ''email'' = Some ''a@x.com'' \<and>
   (\<exists>st'. RegisterUserView_post example_hasher empty_system register_alice =
            Inr (Response [(''message'', Str ''User created successfully'')] 201, st') \<and>
          users st' = [alice] \<and> log st' = log empty_system \<and> db_ok st') \<and>
   RegisterUserView_post example_hasher empty_system (register_alice(''password'' \<mapsto> ''pw1'')) =
     RegisterUserView_post example_hasher empty_system register_alice"
proof -
  have free: "\<forall>v \<in> set (users empty_system). username v \<noteq> ''alice''"
    by (simp add: empty_system_def)
  have new: "users empty_system @ [\<lparr>pk = next_pk empty_system, username = ''alice'',
      password = make_password example_hasher ''pw1'', email = ''a@x.com''\<rparr>] = [alice]"
    by (simp add: empty_system_def example_hasher_def alice_def)
  from register_success [OF register_alice_fields db_ok_empty_system free, of example_hasher]
  have "\<exists>st'. RegisterUserView_post example_hasher empty_system register_alice =
            Inr (Response [(''message'', Str ''User created successfully'')] 201, st') \<and>
          users st' = users empty_system @ [\<lparr>pk = next_pk empty_system, username = ''alice'',
            password = make_password example_hasher ''pw1'', email = ''a@x.com''\<rparr>] \<and>
          log st' = log empty_system \<and> db_ok st'"
    by (rule conjunct1)
  then have "\<exists>st'. RegisterUserView_post example_hasher empty_system register_alice =
            Inr (Response [(''message'', Str ''User created successfully'')] 201, st') \<and>
          users st' = [alice] \<and> log st' = log empty_system \<and> db_ok st'"
    by (simp only: new)
  moreover
  from register_success [OF register_alice_fields db_ok_empty_system free, of example_hasher]
  have "RegisterUserView_post example_hasher empty_system (register_alice(''password'' \<mapsto> ''pw1'')) =
          RegisterUserView_post example_hasher empty_system register_alice"
    by simp
  moreover have "users empty_system = []"
    by (simp add: empty_system_def)
  ultimately show ?thesis
    using db_ok_empty_system register_alice_fields(1-3) by (intro conjI)
qed

text \<open>
  C2 (amended). For every registration request with all three fields present and non-empty
  whose name already exists in the store, the handler fails with the conflict error (status
  400, "Username already taken") and the user table is unchanged. After the same such
  request is made twice to a well-formed store, the second call has failed with the
  conflict error and the store holds exactly one record with that name.
\<close>

theorem register_duplicate_name:
  assumes "rd ''username'' = Some u" "rd ''password'' = Some p" "rd ''email'' = Some e"
    and "u \<noteq> []" "p \<noteq> []" "e \<noteq> []"
  shows "((\<exists>v \<in> set (users st). username v = u) \<longrightarrow>
            (\<exists>st'. RegisterUserView_post hs st rd =
               Inr (Response [(''error'', Str ''Username already taken'')] 400, st') \<and>
             users st' = users st \<and> next_pk st' = next_pk st)) \<and>
         (db_ok st \<longrightarrow>
            (\<exists>r1 st1 st2. RegisterUserView_post hs st rd = Inr (r1, st1) \<and>
               RegisterUserView_post hs st1 rd =
                 Inr (Response [(''error'', Str ''Username already taken'')] 400, st2) \<and>
               length (filter (\<lambda>v. username v = u) (users st2)) = 1))"
proof (intro conjI impI)
  assume ex: "\<exists>v \<in> set (users st). username v = u"
  from register_name_taken [OF assms ex, of hs]
  show "\<exists>st'. RegisterUserView_post hs st rd =
               Inr (Response [(''error'', Str ''Username already taken'')] 400, st') \<and>
             users st' = users st \<and> next_pk st' = next_pk st"
    by simp
next
  assume ok: "db_ok st"
  let ?taken = "Response [(''error'', Str ''Username already taken'')] 400"
  show "\<exists>r1 st1 st2. RegisterUserView_post hs st rd = Inr (r1, st1) \<and>
          RegisterUserView_post hs st1 rd = Inr (?taken, st2) \<and>
          length (filter (\<lambda>v. username v = u) (users st2)) = 1"
  proof (cases "\<exists>v \<in> set (users st). username v = u")
    case True
    let ?st1 = "st\<lparr>calls := calls st @ [Users_filter u]\<rparr>"
    let ?st2 = "?st1\<lparr>calls := calls ?st1 @ [Users_filter u]\<rparr>"
    have one: "RegisterUserView_post hs st rd = Inr (?taken, ?st1)"
      by (rule register_name_taken [OF assms True])
    from True have "\<exists>v \<in> set (users ?st1). username v = u" by simp
    then have two: "RegisterUserView_post hs ?st1 rd = Inr (?taken, ?st2)"
      by (rule register_name_taken [OF assms])
    from True obtain w where w: "w \<in> set (users st)" "username w = u" by blast
    from ok have "distinct (map username (users st))" by (simp add: db_ok_def)
    from filter_unique_name [OF this w(1)] w(2)
    have "length (filter (\<lambda>v. username v = u) (users ?st2)) = 1" by simp
    with one two show ?thesis by blast
  next
    case False
    then have free: "\<forall>v \<in> set (users st). username v \<noteq> u" by simp
    let ?new = "\<lparr>pk = next_pk st, username = u, password = make_password hs p, email = e\<rparr>"
    let ?st1 = "st\<lparr>users := users st @ [?new], next_pk := Suc (next_pk st),
      calls := calls st @ [Users_filter u, Users_create_user u, User_save (next_pk st)]\<rparr>"
    let ?st2 = "?st1\<lparr>calls := calls ?st1 @ [Users_filter u]\<rparr>"
    have one: "RegisterUserView_post hs st rd =
        Inr (Response [(''message'', Str ''User created successfully'')] 201, ?st1)"
      by (rule register_name_free [OF assms free db_ok_fresh_pk [OF ok]])
    have "\<exists>v \<in> set (users ?st1). username v = u" by simp
    then have two: "RegisterUserView_post hs ?st1 rd = Inr (?taken, ?st2)"
      by (rule register_name_taken [OF assms])
    from free have "filter (\<lambda>v. username v = u) (users st) = []"
      by (simp add: filter_empty_conv)
    then have "length (filter (\<lambda>v. username v = u) (users ?st2)) = 1" by simp
    with one two show ?thesis by blast
  qed
qed

theorem register_duplicate_name_witness:
  "register_alice ''username'' = Some ''alice'' \<and> register_alice ''password'' = Some ''pw1'' \<and>
   register_alice ''email'' = Some ''a@x.com'' \<and>
   (\<exists>v \<in> set (users alice_system). username v = ''alice'') \<and>
   (\<exists>st'. RegisterUserView_post example_hasher alice_system register_alice =
       Inr (Response [(''error'', Str ''Username already taken'')] 400, st') \<and>
     users st' = users alice_system \<and> next_pk st' = next_pk alice_system) \<and>
   db_ok empty_system \<and>
   (\<exists>r1 st1 st2. RegisterUserView_post example_hasher empty_system register_alice =
        Inr (r1, st1) \<and>
      RegisterUserView_post example_hasher st1 register_alice =
        Inr (Response [(''error'', Str ''Username already taken'')] 400, st2) \<and>
      length (filter (\<lambda>v. username v = ''alice'') (users st2)) = 1)"
proof -
  have ex: "\<exists>v \<in> set (users alice_system). username v = ''alice''"
    by (simp add: alice_system_def alice_def)
  note a = register_duplicate_name [OF register_alice_fields, of alice_system example_hasher]
  note b = register_duplicate_name [OF register_alice_fields, of empty_system example_hasher]
  from a ex have c1: "\<exists>st'. RegisterUserView_post example_hasher alice_system register_alice =
       Inr (Response [(''error'', Str ''Username already taken'')] 400, st') \<and>
     users st' = users alice_system \<and> next_pk st' = next_pk alice_system"
    by blast
  from b db_ok_empty_system
  have c2: "\<exists>r1 st1 st2. RegisterUserView_post example_hasher empty_system register_alice =
        Inr (r1, st1) \<and>
      RegisterUserView_post example_hasher st1 register_alice =
        Inr (Response [(''error'', Str ''Username already taken'')] 400, st2) \<and>
      length (filter (\<lambda>v. username v = ''alice'') (users st2)) = 1"
    by blast
  from register_alice_fields(1-3) ex c1 db_ok_empty_system c2 show ?thesis
    by (intro conjI)
qed

text \<open>
  The claim C2 as first stated covers every request whose name already exists. When the
  name exists but another field is absent, the first test of the handler answers with the
  validation error, not with the conflict error.
\<close>

theorem register_duplicate_name_counterexample:
  "''alice'' \<in> set (map username (users alice_system)) \<and>
   RegisterUserView_post example_hasher alice_system
       [''username'' \<mapsto> ''alice'', ''password'' \<mapsto> ''pw1''] =
     Inr (Response [(''error'', Str ''All fields are required'')] 400, alice_system) \<and>
   Response [(''error'', Str ''All fields are required'')] 400 \<noteq>
     Response [(''error'', Str ''Username already taken'')] 400"
  by (simp add: register_falsy_field) (simp add: alice_system_def alice_def)

section \<open>Logins on the stores the system builds\<close>

lemma register_users:
  assumes "db_ok st" "RegisterUserView_post hs st rd = Inr (r, st')"
  shows "users st' = users st \<or>
     (\<exists>u p e. u \<noteq> [] \<and> p \<noteq> [] \<and>
        users st' = users st @ [\<lparr>pk = next_pk st, username = u,
          password = make_password hs p, email = e\<rparr>])"
proof (cases "truthy (rd ''username'') \<and> truthy (rd ''password'') \<and> truthy (rd ''email'')")
  case False
  then have "RegisterUserView_post hs st rd =
     Inr (Response [(''error'', Str ''All fields are required'')] 400, st)"
    by (simp add: RegisterUserView_post_def Let_def)
  with assms show ?thesis by simp
next
  case True
  then obtain u p e where f: "rd ''username'' = Some u" "rd ''password'' = Some p"
    "rd ''email'' = Some e" "u \<noteq> []" "p \<noteq> []" "e \<noteq> []"
    by (cases "rd ''username''"; cases "rd ''password''"; cases "rd ''email''") auto
  show ?thesis
  proof (cases "\<exists>v \<in> set (users st). username v = u")
    case True
    from register_name_taken [OF f True, of hs] assms show ?thesis
      by auto
  next
    case False
    then have free: "\<forall>v \<in> set (users st). username v \<noteq> u" by simp
    from register_name_free [OF f free db_ok_fresh_pk [OF assms(1)], of hs] assms(2)
    have "users st' = users st @ [\<lparr>pk = next_pk st, username = u,
          password = make_password hs p, email = e\<rparr>]"
      by auto
    with f(4,5) show ?thesis by blast
  qed
qed

lemma serve_invariant:
  assumes "db_ok st" "\<forall>w \<in> set (users st). registered hs w"
  shows "db_ok (serve hs st rq) \<and> (\<forall>w \<in> set (users (serve hs st rq)). registered hs w)"
proof (cases rq)
  case (Register rd)
  show ?thesis
  proof (cases "RegisterUserView_post hs st rd")
    case (Inl e)
    with Register assms show ?thesis by (simp add: serve_def)
  next
    case (Inr res)
    obtain r st' where res: "res = (r, st')" by (cases res)
    with Inr have post: "RegisterUserView_post hs st rd = Inr (r, st')" by simp
    from Register post have sv: "serve hs st rq = st'" by (simp add: serve_def)
    have ok: "db_ok st'" by (rule register_preserves_db_ok [OF assms(1) post])
    from register_users [OF assms(1) post]
    have "\<forall>w \<in> set (users st'). registered hs w"
    proof
      assume "users st' = users st"
      with assms(2) show ?thesis by simp
    next
      assume "\<exists>u p e. u \<noteq> [] \<and> p \<noteq> [] \<and>
        users st' = users st @ [\<lparr>pk = next_pk st, username = u,
          password = make_password hs p, email = e\<rparr>]"
      then obtain u p e where n: "u \<noteq> []" "p \<noteq> []"
        "users st' = users st @ [\<lparr>pk = next_pk st, username = u,
          password = make_password hs p, email = e\<rparr>]"
        by blast
      from n(1,2) have "registered hs \<lparr>pk = next_pk st, username = u,
          password = make_password hs p, email = e\<rparr>"
        unfolding registered_def by auto
      with assms(2) n(3) show ?thesis by simp
    qed
    with ok sv show ?thesis by simp
  qed
next
  case (Login rd)
  then have sv: "serve hs st rq = snd (LoginUserView_post hs st rd)"
    by (simp add: serve_def)
  from login_users [of hs st rd] assms show ?thesis
    unfolding sv by (simp add: db_ok_def)
next
  case (Secure b)
  then have "serve hs st rq = st"
    by (simp add: serve_def SecureApiView_def dispatch_def SecureApiView_get_def)
  with assms show ?thesis by simp
qed

lemma run_invariant:
  "db_ok st \<Longrightarrow> \<forall>w \<in> set (users st). registered hs w \<Longrightarrow>
   db_ok (run hs st rqs) \<and> (\<forall>w \<in> set (users (run hs st rqs)). registered hs w)"
proof (induction rqs arbitrary: st)
  case Nil
  then show ?case by simp
next
  case (Cons rq rqs)
  from serve_invariant [OF Cons.prems, of rq]
  have "db_ok (serve hs st rq)" "\<forall>w \<in> set (users (serve hs st rq)). registered hs w"
    by simp_all
  from Cons.IH [OF this] show ?case by simp
qed

text \<open>
  C4. Take any state the system reaches from an empty user table by serving requests, and a
  hasher that does not verify the empty secret against the hash of a non-empty one. For
  every login request with both fields present whose name matches a stored record and whose
  secret matches that record's stored hash, the handler asks the Token Issuer to mint a
  token for that record (a refresh token, then the access token made from it), and returns
  status 200 with the body \<open>{"access_token": token}\<close>, where the token is an access token
  bound to the record's primary key.
\<close>

theorem login_success:
  assumes "users st0 = []"
    and "\<forall>q. q \<noteq> [] \<longrightarrow> \<not> check_password hs [] (make_password hs q)"
    and "rd ''username'' = Some u" "rd ''password'' = Some p"
    and "w \<in> set (users (run hs st0 rqs))" "username w = u"
    and "check_password hs p (password w)"
  shows "\<exists>tok st'.
     LoginUserView_post hs (run hs st0 rqs) rd =
       (Response [(''access_token'', Jwt tok)] 200, st') \<and>
     token_type tok = Access \<and> user_id tok = pk w \<and>
     calls st' = calls (run hs st0 rqs) @ [Users_filter u, User_check_password (pk w),
       RefreshToken_for_user (pk w), RefreshToken_access_token (pk w)]"
proof -
  from assms(1) have "db_ok st0" "\<forall>w \<in> set (users st0). registered hs w"
    by (simp_all add: db_ok_def)
  from run_invariant [OF this, of rqs]
  have ok: "db_ok (run hs st0 rqs)" and reg: "registered hs w"
    using assms(5) by simp_all
  from reg assms(6) have u: "u \<noteq> []" by (simp add: registered_def)
  from reg obtain q where q: "q \<noteq> []" "password w = make_password hs q"
    by (auto simp: registered_def)
  with assms(2,7) have p: "p \<noteq> []" by auto
  show ?thesis
    by (rule login_success_nonempty [OF assms(3,4) u p ok assms(5,6,7)])
qed

lemma run_register_alice:
  "run example_hasher empty_system [Register register_alice] =
     empty_system\<lparr>users := [alice], next_pk := 2,
       calls := [Users_filter ''alice'', Users_create_user ''alice'', User_save 1]\<rparr>"
proof -
  have free: "\<forall>v \<in> set (users empty_system). username v \<noteq> ''alice''"
    "\<forall>v \<in> set (users empty_system). pk v \<noteq> next_pk empty_system"
    by (simp_all add: empty_system_def)
  from register_name_free [OF register_alice_fields free, of example_hasher]
  show ?thesis
    by (simp add: serve_def empty_system_def alice_def example_hasher_def)
qed

theorem login_success_witness:
  "users empty_system = [] \<and>
   login_alice ''username'' = Some ''alice'' \<and> login_alice ''password'' = Some ''pw1'' \<and>
   alice \<in> set (users (run example_hasher empty_system [Register register_alice])) \<and>
   username alice = ''alice'' \<and>
   check_password example_hasher ''pw1'' (password alice) \<and>
   (\<exists>tok st'.
      LoginUserView_post example_hasher
          (run example_hasher empty_system [Register register_alice]) login_alice =
        (Response [(''access_token'', Jwt tok)] 200, st') \<and>
      token_type tok = Access \<and> user_id tok = pk alice \<and>
      calls st' = calls (run example_hasher empty_system [Register register_alice]) @
        [Users_filter ''alice'', User_check_password (pk alice),
         RefreshToken_for_user (pk alice), RefreshToken_access_token (pk alice)])"
proof -
  have e: "users empty_system = []" by (simp add: empty_system_def)
  have h: "\<forall>q. q \<noteq> [] \<longrightarrow>
      \<not> check_password example_hasher [] (make_password example_hasher q)"
    by (simp add: example_hasher_def)
  have f: "login_alice ''username'' = Some ''alice''" "login_alice ''password'' = Some ''pw1''"
    by (simp_all add: login_alice_def)
  have m: "alice \<in> set (users (run example_hasher empty_system [Register register_alice]))"
    unfolding run_register_alice by simp
  have n: "username alice = ''alice''" by (simp add: alice_def)
  have c: "check_password example_hasher ''pw1'' (password alice)"
    by (simp add: example_hasher_def alice_def)
  from e f m n c login_success [OF e h f m n c] show ?thesis by (intro conjI)
qed

section \<open>Properties of the Access Guard\<close>

lemma secure_rejected:
  "\<not> accepts st request \<Longrightarrow>
   dispatch SecureApiView_permission_classes handler st request =
     (authentication_failure request, st)"
  by (simp add: dispatch_def SecureApiView_permission_classes_def)

lemma secure_admitted:
  "accepts st request \<Longrightarrow>
   dispatch SecureApiView_permission_classes handler st request = handler st request"
  by (simp add: dispatch_def SecureApiView_permission_classes_def)

lemma authentication_failure_status: "status (authentication_failure request) = 401"
  by (simp add: authentication_failure_def split: option.splits)

text \<open>
  C5. For every request to the guarded endpoint: if the Token Issuer does not accept the
  presented token as currently valid, the answer is the authentication failure (status 401)
  whatever the handler body is, so the body is never run, and the state is untouched; a
  missing, a malformed and an expired token are not accepted. If the token is accepted, the
  answer is status 200 with the body
  \<open>{"message": "You have access to this secure endpoint!"}\<close>.
\<close>

theorem secure_endpoint_guard:
  "(\<not> accepts st request \<longrightarrow>
      (\<forall>handler. dispatch SecureApiView_permission_classes handler st request =
         (authentication_failure request, st)) \<and>
      SecureApiView st request = (authentication_failure request, st) \<and>
      status (authentication_failure request) = 401) \<and>
   (accepts st request \<longrightarrow>
      SecureApiView st request =
        (Response [(''message'', Str ''You have access to this secure endpoint!'')] 200, st)) \<and>
   \<not> accepts st None \<and> \<not> accepts st (Some (Malformed s)) \<and>
   (exp t \<le> now st \<longrightarrow> \<not> accepts st (Some (Bearer t)))"
proof (intro conjI impI allI)
  fix handler
  assume "\<not> accepts st request"
  then show "dispatch SecureApiView_permission_classes handler st request =
      (authentication_failure request, st)"
    by (rule secure_rejected)
next
  assume "\<not> accepts st request"
  then show "SecureApiView st request = (authentication_failure request, st)"
    by (simp add: SecureApiView_def secure_rejected)
next
  show "status (authentication_failure request) = 401"
    by (rule authentication_failure_status)
next
  assume "accepts st request"
  then show "SecureApiView st request =
      (Response [(''message'', Str ''You have access to this secure endpoint!'')] 200, st)"
    by (simp add: SecureApiView_def secure_admitted SecureApiView_get_def)
next
  show "\<not> accepts st None" by (simp add: accepts_def)
next
  show "\<not> accepts st (Some (Malformed s))" by (simp add: accepts_def)
next
  assume "exp t \<le> now st"
  then show "\<not> accepts st (Some (Bearer t))" by (simp add: accepts_def)
qed

theorem secure_endpoint_guard_witness:
  "\<not> accepts alice_system None \<and>
   SecureApiView alice_system None =
     (Response [(''detail'', Str ''Authentication credentials were not provided.'')] 401,
      alice_system) \<and>
   exp (alice_token\<lparr>exp := 0\<rparr>) \<le> now alice_system \<and>
   SecureApiView alice_system (Some (Bearer (alice_token\<lparr>exp := 0\<rparr>))) =
     (Response [(''detail'', Str ''Given token not valid for any token type'')] 401,
      alice_system) \<and>
   accepts alice_system (Some (Bearer alice_token)) \<and>
   SecureApiView alice_system (Some (Bearer alice_token)) =
     (Response [(''message'', Str ''You have access to this secure endpoint!'')] 200,
      alice_system)"
proof -
  have ok: "accepts alice_system (Some (Bearer alice_token))"
    by (simp add: accepts_def alice_system_def empty_system_def alice_token_def)
  have old: "exp (alice_token\<lparr>exp := 0\<rparr>) \<le> now alice_system"
    by simp
  note none = secure_endpoint_guard [of alice_system None "[]" alice_token]
  note expired = secure_endpoint_guard
    [of alice_system "Some (Bearer (alice_token\<lparr>exp := 0\<rparr>))" "[]" "alice_token\<lparr>exp := 0\<rparr>"]
  note valid = secure_endpoint_guard [of alice_system "Some (Bearer alice_token)" "[]" alice_token]
  from none have n: "\<not> accepts alice_system None" by blast
  with none have a: "SecureApiView alice_system None =
     (Response [(''detail'', Str ''Authentication credentials were not provided.'')] 401,
      alice_system)"
    by (simp add: authentication_failure_def)
  from expired old have "\<not> accepts alice_system (Some (Bearer (alice_token\<lparr>exp := 0\<rparr>)))"
    by blast
  with expired have b: "SecureApiView alice_system (Some (Bearer (alice_token\<lparr>exp := 0\<rparr>))) =
     (Response [(''detail'', Str ''Given token not valid for any token type'')] 401,
      alice_system)"
    by (simp add: authentication_failure_def)
  from valid ok have c: "SecureApiView alice_system (Some (Bearer alice_token)) =
     (Response [(''message'', Str ''You have access to this secure endpoint!'')] 200,
      alice_system)"
    by blast
  from n a old b ok c show ?thesis by (intro conjI)
qed

text \<open>
  The access token returned by a successful login is admitted by the guard of the state the
  login leaves, as long as access tokens have a positive lifetime.
\<close>

lemma issued_token_admitted:
  assumes "LoginUserView_post hs st rd = (Response [(''access_token'', Jwt tok)] 200, st')"
    and "0 < access_lifetime st"
  shows "accepts st' (Some (Bearer tok))"
  using assms
  by (auto simp: LoginUserView_post_def Let_def logger_info_def objects_filter_def
      user_check_password_def for_user_def access_token_def accepts_def
      split: if_splits option.splits)

section \<open>Logging\<close>

text \<open>
  C8 (amended). A login attempt whose username and password are both present and non-empty
  writes exactly one record to the log, at level INFO, naming the attempted username,
  whether the attempt then succeeds or fails. A login attempt with an absent or empty field
  logs nothing, and neither the Registration Handler nor the guarded endpoint logs anything.
\<close>

theorem logging_only_login_attempts:
  "(rd ''username'' = Some u \<and> u \<noteq> [] \<and> truthy (rd ''password'') \<longrightarrow>
      log (snd (LoginUserView_post hs st rd)) =
        log st @ [(INFO, ''Attempting login for '' @ u)]) \<and>
   (\<not> truthy (rd ''username'') \<or> \<not> truthy (rd ''password'') \<longrightarrow>
      log (snd (LoginUserView_post hs st rd)) = log st) \<and>
   (\<forall>r st'. RegisterUserView_post hs st rd = Inr (r, st') \<longrightarrow> log st' = log st) \<and>
   log (snd (SecureApiView st request)) = log st"
  by (auto simp: login_log register_log SecureApiView_def dispatch_def SecureApiView_get_def)

theorem logging_only_login_attempts_witness:
  "login_alice_wrong ''username'' = Some ''alice'' \<and> ''alice'' \<noteq> [] \<and>
   truthy (login_alice_wrong ''password'') \<and>
   log (snd (LoginUserView_post example_hasher alice_system login_alice_wrong)) =
     log alice_system @ [(INFO, ''Attempting login for alice'')] \<and>
   \<not> truthy ([''username'' \<mapsto> ''alice''] ''password'') \<and>
   log (snd (LoginUserView_post example_hasher alice_system [''username'' \<mapsto> ''alice''])) =
     log alice_system \<and>
   RegisterUserView_post example_hasher alice_system register_alice =
     Inr (Response [(''error'', Str ''Username already taken'')] 400,
          alice_system\<lparr>calls := calls alice_system @ [Users_filter ''alice'']\<rparr>) \<and>
   log (alice_system\<lparr>calls := calls alice_system @ [Users_filter ''alice'']\<rparr>) =
     log alice_system \<and>
   log (snd (SecureApiView alice_system None)) = log alice_system"
proof -
  have f: "login_alice_wrong ''username'' = Some ''alice''" "''alice'' \<noteq> []"
    "truthy (login_alice_wrong ''password'')"
    by (simp_all add: login_alice_wrong_def)
  have g: "\<not> truthy ([''username'' \<mapsto> ''alice''] ''password'')" by simp
  have reg: "RegisterUserView_post example_hasher alice_system register_alice =
     Inr (Response [(''error'', Str ''Username already taken'')] 400,
          alice_system\<lparr>calls := calls alice_system @ [Users_filter ''alice'']\<rparr>)"
    by (rule register_name_taken [where p = "''pw1''" and e = "''a@x.com''"])
      (simp_all add: register_alice_def alice_system_def alice_def)
  have a: "log (snd (LoginUserView_post example_hasher alice_system login_alice_wrong)) =
     log alice_system @ [(INFO, ''Attempting login for alice'')]"
    using logging_only_login_attempts
      [of login_alice_wrong "''alice''" example_hasher alice_system None] f
    by simp
  have b: "log (snd (LoginUserView_post example_hasher alice_system
       [''username'' \<mapsto> ''alice''])) = log alice_system"
    using logging_only_login_attempts
      [of "[''username'' \<mapsto> ''alice'']" "''alice''" example_hasher alice_system None] g
    by blast
  have c: "log (alice_system\<lparr>calls := calls alice_system @ [Users_filter ''alice'']\<rparr>) =
     log alice_system"
    using logging_only_login_attempts
      [of register_alice "''alice''" example_hasher alice_system None] reg
    by blast
  have d: "log (snd (SecureApiView alice_system None)) = log alice_system"
    using logging_only_login_attempts
      [of register_alice "''alice''" example_hasher alice_system None]
    by blast
  from f g reg a b c d show ?thesis by (intro conjI)
qed

text \<open>
  The claim C8 as first stated has every login attempt log the attempted username. An
  attempt that names alice but carries no password returns at the first test of the
  handler, before the call of the logger: nothing is logged.
\<close>

theorem login_logging_counterexample:
  "[''username'' \<mapsto> ''alice''] ''username'' = Some ''alice'' \<and>
   log (snd (LoginUserView_post example_hasher alice_system [''username'' \<mapsto> ''alice''])) = [] \<and>
   (INFO, ''Attempting login for alice'') \<notin>
     set (log (snd (LoginUserView_post example_hasher alice_system [''username'' \<mapsto> ''alice''])))"
  by (simp add: login_falsy_field alice_system_def empty_system_def)

end
